theory Spec2Isabelle
  imports Main "HOL-Library.Sublist"
begin

section \<open>Strings and the regular expressions of the source\<close>

text \<open>
  A JavaScript string is a sequence of UTF-16 code units. The model takes strings over the
  code units below 256 (\<^typ>\<open>char\<close>), so \<open>length\<close> is the source's \<open>.length\<close>. In that
  range the line terminators (what \<open>.\<close> refuses to match) are LF and CR, and the white
  space of \<open>\s\<close> and of \<open>trim()\<close> is TAB, LF, VT, FF, CR, SPACE and NBSP.
\<close>

definition isLineTerminator :: "char \<Rightarrow> bool" where
  "isLineTerminator c = (c = CHR 0x0A \<or> c = CHR 0x0D)"

definition isWhiteSpace :: "char \<Rightarrow> bool" where
  "isWhiteSpace c =
     (c = CHR 0x09 \<or> c = CHR 0x0A \<or> c = CHR 0x0B \<or> c = CHR 0x0C \<or> c = CHR 0x0D
      \<or> c = CHR 0x20 \<or> c = CHR 0xA0)"

definition isDigit :: "char \<Rightarrow> bool" where
  "isDigit c = (let n = (of_char c :: nat) in 48 \<le> n \<and> n \<le> 57)"

definition isWordChar :: "char \<Rightarrow> bool" where
  "isWordChar c =
     (let n = (of_char c :: nat)
      in (48 \<le> n \<and> n \<le> 57) \<or> (65 \<le> n \<and> n \<le> 90) \<or> n = 95 \<or> (97 \<le> n \<and> n \<le> 122))"

definition lowerChar :: "char \<Rightarrow> char" where
  "lowerChar c =
     (let n = (of_char c :: nat)
      in if (65 \<le> n \<and> n \<le> 90) \<or> (192 \<le> n \<and> n \<le> 222 \<and> n \<noteq> 215)
         then char_of (n + 32) else c)"

definition toLowerCase :: "string \<Rightarrow> string" where
  "toLowerCase s = map lowerChar s"

definition trim :: "string \<Rightarrow> string" where
  "trim s = rev (dropWhile isWhiteSpace (rev (dropWhile isWhiteSpace s)))"

definition startsWith :: "string \<Rightarrow> string \<Rightarrow> bool" where
  "startsWith s p = prefix p s"

definition endsWith :: "string \<Rightarrow> string \<Rightarrow> bool" where
  "endsWith s p = suffix p s"

text \<open>\<open>s.includes(t)\<close>: some suffix of \<open>s\<close> starts with \<open>t\<close>.\<close>

fun includesStr :: "string \<Rightarrow> string \<Rightarrow> bool" where
  "includesStr [] t = (t = [])"
| "includesStr (c # cs) t = (prefix t (c # cs) \<or> includesStr cs t)"

text \<open>
  \<open>s.replace(p, r)\<close> with a string pattern: the first occurrence of \<open>p\<close> is replaced,
  nothing happens when there is none.
\<close>

fun replaceFirst :: "string \<Rightarrow> string \<Rightarrow> string \<Rightarrow> string" where
  "replaceFirst [] p r = (if p = [] then r else [])"
| "replaceFirst (c # cs) p r =
     (if prefix p (c # cs) then r @ drop (length p) (c # cs)
      else c # replaceFirst cs p r)"

text \<open>
  A lazy group followed by a literal: \<open>lazyUntil ok d s\<close> is the shortest prefix \<open>g\<close> of
  \<open>s\<close>, made of characters the group accepts, that is followed by \<open>d\<close>, with what comes
  after \<open>d\<close>. This is what \<open>(.*?)d\<close> and \<open>([\s\S]*?)d\<close> match from a fixed start.
\<close>

fun lazyUntil :: "(char \<Rightarrow> bool) \<Rightarrow> string \<Rightarrow> string \<Rightarrow> (string \<times> string) option" where
  "lazyUntil ok d [] = (if d = [] then Some ([], []) else None)"
| "lazyUntil ok d (c # cs) =
     (if prefix d (c # cs) then Some ([], drop (length d) (c # cs))
      else if ok c then
        (case lazyUntil ok d cs of
           None \<Rightarrow> None
         | Some (g, rest) \<Rightarrow> Some (c # g, rest))
      else None)"

text \<open>\<open>/\[\[(.*?)\]\]/\<close> tried at the start of \<open>s\<close>: the capture and the text after the match.\<close>

definition matchWikiLinkAt :: "string \<Rightarrow> (string \<times> string) option" where
  "matchWikiLinkAt s =
     (if prefix ''[['' s
      then lazyUntil (\<lambda>c. \<not> isLineTerminator c) '']]'' (drop 2 s)
      else None)"

lemma lazyUntil_length:
  "lazyUntil ok d s = Some (g, rest) \<Longrightarrow> length s = length g + length d + length rest"
proof (induction s arbitrary: g rest)
  case Nil
  then show ?case by (auto split: if_splits)
next
  case (Cons c cs)
  show ?case
  proof (cases "prefix d (c # cs)")
    case True
    with Cons.prems have "g = []" "rest = drop (length d) (c # cs)" by auto
    moreover from True have "length d \<le> length (c # cs)" by (rule prefix_length_le)
    ultimately show ?thesis by simp
  next
    case False
    with Cons.prems obtain g' where "lazyUntil ok d cs = Some (g', rest)" "g = c # g'"
      by (auto split: if_splits option.splits)
    with Cons.IH show ?thesis by simp
  qed
qed

lemma matchWikiLinkAt_shorter:
  "matchWikiLinkAt s = Some (g, rest) \<Longrightarrow> length rest < length s"
proof -
  assume m: "matchWikiLinkAt s = Some (g, rest)"
  then have p: "prefix ''[['' s"
    and l: "lazyUntil (\<lambda>c. \<not> isLineTerminator c) '']]'' (drop 2 s) = Some (g, rest)"
    by (auto simp: matchWikiLinkAt_def split: if_splits)
  from p have "2 \<le> length s" using prefix_length_le by fastforce
  with lazyUntil_length [OF l] show ?thesis by simp
qed

section \<open>The markdown to HTML pre-passes of the content synchronisation\<close>

text \<open>
  \<open>html.replace(/\[\[(.*?)\]\]/g, '<a href="wiki:$1" class="wiki-link">$1</a>')\<close>:
  every match, from left to right and without overlap, is replaced.
\<close>

definition wikiAnchor :: "string \<Rightarrow> string" where
  \<open>wikiAnchor g = ''<a href="wiki:'' @ g @ ''" class="wiki-link">'' @ g @ ''</a>''\<close>

function wikiLinkPrepass :: "string \<Rightarrow> string" where
  "wikiLinkPrepass [] = []"
| "wikiLinkPrepass (c # cs) =
     (case matchWikiLinkAt (c # cs) of
        Some (g, rest) \<Rightarrow> wikiAnchor g @ wikiLinkPrepass rest
      | None \<Rightarrow> c # wikiLinkPrepass cs)"
  by pat_completeness auto
termination
  by (relation "measure length") (auto dest: matchWikiLinkAt_shorter)

text \<open>
  The two code-fence replacements. Each match ends at the first \<open>\n</code></pre>\<close> after
  the opening tag; when there is none after the first \<open>">\<close>, there is none after a later
  one either, so backtracking into the language group cannot produce a match.
\<close>

definition codeClose :: string where
  \<open>codeClose = ''\<newline></code></pre>''\<close>

definition matchLangFenceAt :: "string \<Rightarrow> (string \<times> string \<times> string) option" where
  \<open>matchLangFenceAt s =
     (if prefix ''<pre><code class="language-'' s
      then (case lazyUntil (\<lambda>c. \<not> isLineTerminator c) ''">''
                  (drop (length ''<pre><code class="language-'') s) of
              None \<Rightarrow> None
            | Some (lang, afterTag) \<Rightarrow>
                (case lazyUntil (\<lambda>c. True) codeClose afterTag of
                   None \<Rightarrow> None
                 | Some (body, rest) \<Rightarrow> Some (lang, body, rest)))
      else None)\<close>

definition matchPlainFenceAt :: "string \<Rightarrow> (string \<times> string) option" where
  \<open>matchPlainFenceAt s =
     (if prefix ''<pre><code>'' s
      then lazyUntil (\<lambda>c. True) codeClose (drop (length ''<pre><code>'') s)
      else None)\<close>

lemma matchLangFenceAt_shorter:
  "matchLangFenceAt s = Some (lang, body, rest) \<Longrightarrow> length rest < length s"
proof -
  assume m: "matchLangFenceAt s = Some (lang, body, rest)"
  then obtain afterTag where
    l1: \<open>lazyUntil (\<lambda>c. \<not> isLineTerminator c) ''">''
           (drop (length ''<pre><code class="language-'') s) = Some (lang, afterTag)\<close>
    and l2: "lazyUntil (\<lambda>c. True) codeClose afterTag = Some (body, rest)"
    by (auto simp: matchLangFenceAt_def split: if_splits option.splits)
  from lazyUntil_length [OF l2] have "length rest < length afterTag"
    by (simp add: codeClose_def)
  moreover from lazyUntil_length [OF l1] have "length afterTag \<le> length s" by simp
  ultimately show ?thesis by simp
qed

lemma matchPlainFenceAt_shorter:
  "matchPlainFenceAt s = Some (body, rest) \<Longrightarrow> length rest < length s"
proof -
  assume m: "matchPlainFenceAt s = Some (body, rest)"
  then have l: \<open>lazyUntil (\<lambda>c. True) codeClose (drop (length ''<pre><code>'') s) = Some (body, rest)\<close>
    by (auto simp: matchPlainFenceAt_def split: if_splits)
  from lazyUntil_length [OF l] show ?thesis by (simp add: codeClose_def)
qed

function stripLangFences :: "string \<Rightarrow> string" where
  "stripLangFences [] = []"
| \<open>stripLangFences (c # cs) =
     (case matchLangFenceAt (c # cs) of
        Some (lang, body, rest) \<Rightarrow>
          ''<pre><code class="language-'' @ lang @ ''">'' @ body @ ''</code></pre>''
            @ stripLangFences rest
      | None \<Rightarrow> c # stripLangFences cs)\<close>
  by pat_completeness auto
termination
  by (relation "measure length") (auto dest: matchLangFenceAt_shorter)

function stripPlainFences :: "string \<Rightarrow> string" where
  "stripPlainFences [] = []"
| \<open>stripPlainFences (c # cs) =
     (case matchPlainFenceAt (c # cs) of
        Some (body, rest) \<Rightarrow>
          ''<pre><code>'' @ body @ ''</code></pre>'' @ stripPlainFences rest
      | None \<Rightarrow> c # stripPlainFences cs)\<close>
  by pat_completeness auto
termination
  by (relation "measure length") (auto dest: matchPlainFenceAt_shorter)

text \<open>
  The HTML handed to \<open>editor.commands.setContent\<close>: the output of \<open>marked.parse\<close> (a
  library function, taken as the parameter \<open>marked\<close>) after the three replacements.
\<close>

definition contentHtml :: "(string \<Rightarrow> string) \<Rightarrow> string \<Rightarrow> string" where
  "contentHtml marked content =
     stripPlainFences (stripLangFences (wikiLinkPrepass (marked content)))"

section \<open>Editor commands\<close>

text \<open>
  The editor is the Tiptap library; the source acts on it only by issuing commands. A
  handler of the source is modelled by the commands it issues, in order.
\<close>

datatype command =
    Focus
  | DeleteBlockText
  | ToggleTaskList
  | ToggleCodeBlock string
  | InsertContent string
  | UpdateAttributes string "(string \<times> bool) list"
  | ScrollIntoView
  | EnterKey
  | SetContent string bool

section \<open>The content synchronisation effect\<close>

text \<open>
  What the effect reads from the editor: \<open>editor.getHTML()\<close> and \<open>editor.isEmpty\<close>. The
  editor is \<open>None\<close> until the library has created it. \<open>turndown\<close> is
  \<open>turndownService.turndown\<close>, a library function.
\<close>

record editorView =
  getHTML :: string
  isEmpty :: bool

definition syncContent ::
  "(string \<Rightarrow> string) \<Rightarrow> (string \<Rightarrow> string) \<Rightarrow> editorView option \<Rightarrow> string \<Rightarrow> command list" where
  "syncContent marked turndown editor content =
     (case editor of
        None \<Rightarrow> []
      | Some ed \<Rightarrow>
          if content = [] then []
          else
            (let currentMarkdown = turndown (getHTML ed)
             in if isEmpty ed \<or> \<bar>int (length currentMarkdown) - int (length content)\<bar> > 5
                then [SetContent (contentHtml marked content) False]
                else []))"

section \<open>The Enter handler of the DelayedMarkdown extension\<close>

text \<open>\<open>s.substring(a, b)\<close> for indices that are not negative: the smaller one is the start.\<close>

definition substring :: "string \<Rightarrow> nat \<Rightarrow> nat \<Rightarrow> string" where
  "substring s a b = take (max a b - min a b) (drop (min a b) s)"

text \<open>
  \<open>text.match(/^-\s\[([ xX])\]\s(.*)$/)\<close>: the two captures. Without the \<open>m\<close> flag \<open>$\<close> is
  the end of the text, so the second capture is the whole remainder and holds no line
  terminator.
\<close>

definition taskMatch :: "string \<Rightarrow> (string \<times> string) option" where
  "taskMatch text =
     (case text of
        c0 # c1 # c2 # c3 # c4 # c5 # rest \<Rightarrow>
          if c0 = CHR ''-'' \<and> isWhiteSpace c1 \<and> c2 = CHR ''[''
             \<and> (c3 = CHR '' '' \<or> c3 = CHR ''x'' \<or> c3 = CHR ''X'')
             \<and> c4 = CHR '']'' \<and> isWhiteSpace c5
             \<and> list_all (\<lambda>c. \<not> isLineTerminator c) rest
          then Some ([c3], rest) else None
      | _ \<Rightarrow> None)"

text \<open>\<open>text.match(/^```(\w*)$/)\<close>: the capture.\<close>

definition codeBlockMatch :: "string \<Rightarrow> string option" where
  "codeBlockMatch text =
     (if prefix ''```'' text \<and> list_all isWordChar (drop 3 text)
      then Some (drop 3 text) else None)"

text \<open>
  \<open>/[*_~`!\[\]]|^(#{1,6}|-|\d+\.|>)\s/.test(text)\<close>. The second alternative is
  \<open>blockMarker\<close>: a run of one to six \<open>#\<close>, a \<open>-\<close>, digits and a dot, or a \<open>>\<close> at the
  start of the text, followed by a white space character.
\<close>

definition followedBySpace :: "string \<Rightarrow> bool" where
  "followedBySpace s = (case s of [] \<Rightarrow> False | c # _ \<Rightarrow> isWhiteSpace c)"

definition blockMarker :: "string \<Rightarrow> bool" where
  "blockMarker text =
     (let hashes = length (takeWhile (\<lambda>c. c = CHR ''#'') text);
          digits = length (takeWhile isDigit text)
      in (1 \<le> hashes \<and> hashes \<le> 6 \<and> followedBySpace (drop hashes text))
         \<or> (prefix ''-'' text \<and> followedBySpace (drop 1 text))
         \<or> (1 \<le> digits \<and> prefix ''.'' (drop digits text)
             \<and> followedBySpace (drop (Suc digits) text))
         \<or> (prefix ''>'' text \<and> followedBySpace (drop 1 text)))"

definition triggerChars :: "char list" where
  "triggerChars = ''*_~`![]''"

definition isMarkdown :: "string \<Rightarrow> bool" where
  "isMarkdown text = (list_ex (\<lambda>c. c \<in> set triggerChars) text \<or> blockMarker text)"

text \<open>
  The handler reads the type name of the node at the cursor and its text content, and
  returns whether it handled the key (\<open>False\<close> leaves Enter to the editor's default
  behaviour). The commands of its chains are listed in the order they run. \<open>marked\<close> is
  \<open>marked.parse\<close>.
\<close>

definition enterHandler :: "(string \<Rightarrow> string) \<Rightarrow> string \<Rightarrow> string \<Rightarrow> command list \<times> bool" where
  \<open>enterHandler marked nodeTypeName text =
     (if nodeTypeName = ''codeBlock'' then ([], False)
      else if nodeTypeName \<noteq> ''paragraph'' then ([], False)
      else
        (case taskMatch text of
           Some (flag, content) \<Rightarrow>
             ([Focus, DeleteBlockText, ToggleTaskList]
                @ (if content \<noteq> [] then [InsertContent content] else [])
                @ (if toLowerCase flag = ''x''
                   then [UpdateAttributes ''taskItem'' [(''checked'', True)]] else [])
                @ [EnterKey],
              True)
         | None \<Rightarrow>
             (case codeBlockMatch text of
                Some language \<Rightarrow> ([Focus, DeleteBlockText, ToggleCodeBlock language], True)
              | None \<Rightarrow>
                  if trim text = [] then ([], False)
                  else if \<not> isMarkdown text then ([], False)
                  else
                    (let html0 = marked text;
                         html1 = (if endsWith html0 ''\<newline>'' then butlast html0 else html0);
                         html2 = (if startsWith html1 ''<p>'' \<and> endsWith html1 ''</p>''
                                     \<and> \<not> includesStr html1 ''</p><p>''
                                  then substring html1 3 (length html1 - 4) else html1);
                         html3 = (if endsWith html2 ''>'' then html2 @ '' '' else html2)
                     in ([Focus, DeleteBlockText, InsertContent html3,
                          Focus, ScrollIntoView, EnterKey],
                         True)))))\<close>

section \<open>Notes, folders and the graph extraction\<close>

text \<open>
  The fields of a note and of a folder that the functions below read; an optional field
  is \<open>None\<close> when it is undefined. An optional string is truthy in the source when it
  is defined and not empty.
\<close>

record Note =
  id_note :: string
  title_note :: string
  content_note :: string
  folderId_note :: "string option"

record Folder =
  id_folder :: string
  name_folder :: string
  parentId_folder :: "string option"

record GraphNode =
  id_node :: string
  title_node :: string
  group_node :: nat

record GraphLink =
  source_link :: string
  target_link :: string
  value_link :: nat

record GraphData =
  nodes :: "GraphNode list"
  links :: "GraphLink list"

text \<open>
  The captures of the successive \<open>wikiLinkRegex.exec(content)\<close> calls of the \<open>while\<close>
  loop, for the global regular expression \<open>/\[\[(.*?)\]\]/g\<close>.
\<close>

function wikiLinkCaptures :: "string \<Rightarrow> string list" where
  "wikiLinkCaptures [] = []"
| "wikiLinkCaptures (c # cs) =
     (case matchWikiLinkAt (c # cs) of
        Some (g, rest) \<Rightarrow> g # wikiLinkCaptures rest
      | None \<Rightarrow> wikiLinkCaptures cs)"
  by pat_completeness auto
termination
  by (relation "measure length") (auto dest: matchWikiLinkAt_shorter)

text \<open>\<open>xs.findIndex(P)\<close>: the first index whose element satisfies \<open>P\<close>, or -1.\<close>

fun findIndex :: "('a \<Rightarrow> bool) \<Rightarrow> 'a list \<Rightarrow> int" where
  "findIndex P [] = - 1"
| "findIndex P (x # xs) =
     (if P x then 0 else (let r = findIndex P xs in if r < 0 then - 1 else r + 1))"

text \<open>
  \<open>links.filter((link, index, self) => index === self.findIndex(l => l.source ===
  link.source && l.target === link.target))\<close>.
\<close>

definition sameEnds :: "GraphLink \<Rightarrow> GraphLink \<Rightarrow> bool" where
  "sameEnds link l = (source_link l = source_link link \<and> target_link l = target_link link)"

definition uniqueLinks :: "GraphLink list \<Rightarrow> GraphLink list" where
  "uniqueLinks ls =
     map snd (filter (\<lambda>(index, link). int index = findIndex (sameEnds link) ls) (enumerate 0 ls))"

text \<open>
  Both maps are filled in list order, so a later entry for a key replaces an earlier one.
\<close>

definition folderToGroupMap :: "Folder list \<Rightarrow> (string \<rightharpoonup> nat)" where
  "folderToGroupMap folders =
     map_of (rev (map (\<lambda>(index, f). (id_folder f, index + 2)) (enumerate 0 folders)))"

definition noteTitleToIdMap :: "Note list \<Rightarrow> (string \<rightharpoonup> string)" where
  "noteTitleToIdMap notes =
     map_of (rev (map (\<lambda>n. (toLowerCase (title_note n), id_note n)) notes))"

text \<open>
  The links pushed for one source note: for each capture, the text before the first \<open>|\<close>,
  trimmed and in lower case, is looked up among the titles.
\<close>

definition noteLinks :: "(string \<rightharpoonup> string) \<Rightarrow> Note \<Rightarrow> GraphLink list" where
  "noteLinks titleToId sourceNote =
     List.map_filter
       (\<lambda>g. let targetTitle = toLowerCase (trim (takeWhile (\<lambda>c. c \<noteq> CHR ''|'') g))
            in (case titleToId targetTitle of
                  None \<Rightarrow> None
                | Some targetId \<Rightarrow>
                    if targetId \<noteq> id_note sourceNote
                    then Some \<lparr>source_link = id_note sourceNote, target_link = targetId,
                               value_link = 1\<rparr>
                    else None))
       (wikiLinkCaptures (content_note sourceNote))"

definition generateGraphData :: "Note list \<Rightarrow> Folder list \<Rightarrow> GraphData" where
  "generateGraphData notes folders =
     \<lparr>nodes =
        map (\<lambda>n. \<lparr>id_node = id_note n, title_node = title_note n,
                   group_node =
                     (case folderId_note n of
                        None \<Rightarrow> 1
                      | Some fid \<Rightarrow>
                          if fid = [] then 1
                          else (case folderToGroupMap folders fid of
                                  None \<Rightarrow> 1
                                | Some g \<Rightarrow> if g = 0 then 1 else g))\<rparr>) notes,
      links = uniqueLinks (concat (map (noteLinks (noteTitleToIdMap notes)) notes))\<rparr>"

section \<open>Backlinks\<close>

text \<open>
  \<open>getBacklinks(targetId)\<close> over the notes of the application state: the target note is
  the first note with that id.
\<close>

definition getBacklinks :: "Note list \<Rightarrow> string \<Rightarrow> Note list" where
  "getBacklinks notes targetId =
     (case find (\<lambda>n. id_note n = targetId) notes of
        None \<Rightarrow> []
      | Some targetNote \<Rightarrow>
          (let targetTitleLower = toLowerCase (title_note targetNote)
           in filter
                (\<lambda>n. if id_note n = targetId then False
                     else (let contentLower = toLowerCase (content_note n)
                           in includesStr contentLower (''[['' @ targetTitleLower @ '']]'')
                              \<or> includesStr contentLower (''[['' @ targetTitleLower @ ''|'')))
                notes))"

section \<open>Moving a folder\<close>

text \<open>
  \<open>folders.find((f) => f.id === current)?.parentId\<close>: the parent recorded in the first
  folder with that id.
\<close>

definition parentOf :: "Folder list \<Rightarrow> string \<Rightarrow> string option" where
  "parentOf folders current =
     (case find (\<lambda>f. id_folder f = current) folders of
        None \<Rightarrow> None
      | Some f \<Rightarrow> parentId_folder f)"

text \<open>
  The \<open>while (current)\<close> loop of \<open>handleMoveFolder\<close>, returning \<open>isDescendant\<close>. The loop
  has no bound of its own: the result is \<open>None\<close> when it does not end.
\<close>

partial_function (option) ancestorLoop :: "Folder list \<Rightarrow> string \<Rightarrow> string option \<Rightarrow> bool option" where
  "ancestorLoop folders folderId current =
     (case current of
        None \<Rightarrow> Some False
      | Some c \<Rightarrow>
          if c = [] then Some False
          else if c = folderId then Some True
          else ancestorLoop folders folderId (parentOf folders c))"

text \<open>
  \<open>handleMoveFolder\<close> takes the folder list of the application state and returns the new
  one; a rejected move returns the list it was given.
\<close>

definition handleMoveFolder :: "Folder list \<Rightarrow> string \<Rightarrow> string option \<Rightarrow> Folder list option" where
  "handleMoveFolder folders folderId targetParentId =
     (if Some folderId = targetParentId then Some folders
      else
        (case ancestorLoop folders folderId targetParentId of
           None \<Rightarrow> None
         | Some isDescendant \<Rightarrow>
             if isDescendant then Some folders
             else Some (map (\<lambda>f. if id_folder f = folderId
                                  then f\<lparr>parentId_folder := targetParentId\<rparr> else f)
                            folders)))"

text \<open>A sequence of moves, each on the state the previous one left.\<close>

fun moveFolders :: "Folder list \<Rightarrow> (string \<times> string option) list \<Rightarrow> Folder list option" where
  "moveFolders folders [] = Some folders"
| "moveFolders folders ((folderId, targetParentId) # moves) =
     (case handleMoveFolder folders folderId targetParentId of
        None \<Rightarrow> None
      | Some folders' \<Rightarrow> moveFolders folders' moves)"

text \<open>
  The parent chain as the code walks it: a step goes from a folder id to the parent
  recorded for it, when that parent is a non-empty string. A folder is its own ancestor
  when one or more steps lead from its id back to it.
\<close>

definition parentRel :: "Folder list \<Rightarrow> (string \<times> string) set" where
  "parentRel folders = {(c, p). parentOf folders c = Some p \<and> p \<noteq> []}"

definition cycleFree :: "Folder list \<Rightarrow> bool" where
  "cycleFree folders = (\<forall>f \<in> set folders. (id_folder f, id_folder f) \<notin> (parentRel folders)\<^sup>+)"

section \<open>The wiki-link rule of the markdown serialiser\<close>

text \<open>
  What the rule reads from a DOM node: its \<open>nodeName\<close> and \<open>getAttribute("href")\<close>, which
  is \<open>None\<close> when the element has no such attribute.
\<close>

record domElement =
  nodeName :: string
  hrefAttr :: "string option"

text \<open>
  \<open>node.nodeName === "A" && node.getAttribute("href")?.startsWith("wiki:") === true\<close>
\<close>

definition wikiLinksFilter :: "domElement \<Rightarrow> bool" where
  "wikiLinksFilter node =
     (nodeName node = ''A''
      \<and> (case hrefAttr node of None \<Rightarrow> False | Some h \<Rightarrow> startsWith h ''wiki:''))"

text \<open>
  The replacement takes the converted content of the node and the node; \<open>href\<close> is used
  when it is truthy (defined and not empty).
\<close>

definition wikiLinksReplacement :: "string \<Rightarrow> domElement \<Rightarrow> string" where
  "wikiLinksReplacement content node =
     (let pageName =
            (case hrefAttr node of
               None \<Rightarrow> content
             | Some href \<Rightarrow> if href = [] then content else replaceFirst href ''wiki:'' [])
      in ''[['' @ pageName @ '']]'')"


section \<open>The serialisation path\<close>

text \<open>
  \<open>new TurndownService({ headingStyle: "atx", codeBlockStyle: "fenced" })\<close> and the one
  rule added to it, under the name \<open>wikiLinks\<close>.
\<close>

record turndownOptions =
  headingStyle :: string
  codeBlockStyle :: string

type_synonym turndownRule = "string \<times> (domElement \<Rightarrow> bool) \<times> (string \<Rightarrow> domElement \<Rightarrow> string)"

definition serviceOptions :: turndownOptions where
  "serviceOptions = \<lparr>headingStyle = ''atx'', codeBlockStyle = ''fenced''\<rparr>"

definition serviceRules :: "turndownRule list" where
  "serviceRules = [(''wikiLinks'', wikiLinksFilter, wikiLinksReplacement)]"

text \<open>
  \<open>onUpdate\<close>: the markdown handed to \<open>onChange\<close>, that is
  \<open>turndownService.turndown(editor.getHTML())\<close>. The parameter \<open>lib\<close> stands for the
  library code on this path: for the HTML last given to \<open>setContent\<close>, what Tiptap's
  \<open>getHTML\<close> renders, converted by the turndown of a service with the given options and
  added rules.
\<close>

type_synonym serialiserLibrary = "turndownOptions \<Rightarrow> turndownRule list \<Rightarrow> string \<Rightarrow> string"

definition onUpdate :: "serialiserLibrary \<Rightarrow> string \<Rightarrow> string" where
  "onUpdate lib html = lib serviceOptions serviceRules html"



definition simpleCode :: "string \<Rightarrow> bool" where
  "simpleCode s =
     list_all (\<lambda>c. isWordChar c \<or> c = CHR '' '' \<or> c = CHR ''('' \<or> c = CHR '')'') s"


definition writesFence :: "serialiserLibrary \<Rightarrow> bool" where
  \<open>writesFence lib =
     (\<forall>opts rules lang code.
        codeBlockStyle opts = ''fenced''
          \<and> list_all (\<lambda>(name, f, r). \<not> f \<lparr>nodeName = ''PRE'', hrefAttr = None\<rparr>
                                    \<and> \<not> f \<lparr>nodeName = ''CODE'', hrefAttr = None\<rparr>) rules
          \<and> lang \<noteq> [] \<and> list_all isWordChar lang
          \<and> simpleCode code \<and> list_ex (\<lambda>c. \<not> isWhiteSpace c) code \<longrightarrow>
        lib opts rules
            (''<pre><code class="language-'' @ lang @ ''">'' @ code @ ''</code></pre>\<newline>'')
          = ''```'' @ lang @ ''\<newline>'' @ code @ ''\<newline>```'')\<close>

section \<open>Properties of the content synchronisation\<close>

text \<open>
  C6, as the code has it. With an editor present and a non-empty incoming markdown, the
  effect replaces the document (one \<open>setContent\<close> with the converted markdown) exactly
  when the editor is empty or the length of the editor's serialised markdown differs from
  the incoming length by more than 5; otherwise it issues no command.
\<close>

theorem syncContent_decision:
  assumes "content \<noteq> []"
  shows "syncContent marked turndown (Some ed) content =
           (if isEmpty ed \<or> \<bar>int (length (turndown (getHTML ed))) - int (length content)\<bar> > 5
            then [SetContent (contentHtml marked content) False] else [])"
  using assms by (simp add: syncContent_def Let_def)

theorem syncContent_decision_witness:
  "''hello world, again'' \<noteq> [] \<and>
   syncContent id id (Some \<lparr>getHTML = ''hello world'', isEmpty = False\<rparr>) ''hello world, again''
     = [SetContent (contentHtml id ''hello world, again'') False] \<and>
   syncContent id id (Some \<lparr>getHTML = ''hello world'', isEmpty = False\<rparr>) ''hello world!''
     = []"
  using syncContent_decision [of "''hello world, again''" id id
          "\<lparr>getHTML = ''hello world'', isEmpty = False\<rparr>"]
        syncContent_decision [of "''hello world!''" id id
          "\<lparr>getHTML = ''hello world'', isEmpty = False\<rparr>"]
  by simp

text \<open>
  C6 as the claim states it fails: the editor's markdown has length 11, the incoming
  markdown is empty, the difference exceeds 5 and the editor is not reset.
\<close>

theorem syncContent_every_change_counterexample:
  "\<bar>int (length (id (getHTML \<lparr>getHTML = ''hello world'', isEmpty = False\<rparr>))) - int (length '''')\<bar> > 5
   \<and> syncContent id id (Some \<lparr>getHTML = ''hello world'', isEmpty = False\<rparr>) '''' = []"
  by (simp add: syncContent_def)

text \<open>
  C10. When the incoming markdown is the empty string the effect issues no command, whatever
  the editor holds: the document is left as it is.
\<close>

theorem syncContent_empty_content:
  "syncContent marked turndown editor '''' = []"
  by (simp add: syncContent_def split: option.splits)

section \<open>Properties of the Enter handler\<close>

lemma taskMatch_needs_bracket:
  "taskMatch text = Some r \<Longrightarrow> CHR ''['' \<in> set text"
  by (auto simp: taskMatch_def split: list.splits if_splits)

lemma codeBlockMatch_needs_backtick:
  "codeBlockMatch text = Some r \<Longrightarrow> CHR 0x60 \<in> set text"
  by (auto simp: codeBlockMatch_def prefix_def split: if_splits)

text \<open>
  C4. On a paragraph whose text has none of the characters \<open>* _ ~ ` ! [ ]\<close> and no block
  marker at its start, the handler issues no command and leaves the key to the editor's
  default behaviour.
\<close>

theorem enterHandler_fast_path:
  assumes "set text \<inter> set triggerChars = {}"
    and "\<not> blockMarker text"
  shows "enterHandler marked ''paragraph'' text = ([], False)"
proof -
  from assms(1) have nb: "CHR ''['' \<notin> set text" and nt: "CHR 0x60 \<notin> set text"
    by (auto simp: triggerChars_def)
  from nb have t: "taskMatch text = None"
    using taskMatch_needs_bracket by (cases "taskMatch text") auto
  from nt have c: "codeBlockMatch text = None"
    using codeBlockMatch_needs_backtick by (cases "codeBlockMatch text") auto
  from assms have m: "\<not> isMarkdown text"
    by (auto simp: isMarkdown_def list_ex_iff)
  show ?thesis by (simp add: enterHandler_def t c m)
qed

theorem enterHandler_fast_path_witness:
  "set ''plain sentence'' \<inter> set triggerChars = {} \<and> \<not> blockMarker ''plain sentence''
   \<and> ''plain sentence'' \<noteq> []
   \<and> enterHandler id ''paragraph'' ''plain sentence'' = ([], False)"
proof -
  have a: "set ''plain sentence'' \<inter> set triggerChars = {}"
    by (simp add: triggerChars_def)
  have b: "\<not> blockMarker ''plain sentence''"
    by (simp add: blockMarker_def followedBySpace_def isDigit_def)
  from enterHandler_fast_path [OF a b, of id] a b show ?thesis by simp
qed

section \<open>Auxiliary facts about the conversions\<close>

lemma lazyUntil_first:
  assumes "list_all ok g" and "d \<noteq> []" and "hd d \<notin> set g"
  shows "lazyUntil ok d (g @ d @ rest) = Some (g, rest)"
  using assms
proof (induction g)
  case Nil
  then obtain a d' where d: "d = a # d'" by (cases d) auto
  then show ?case by simp
next
  case (Cons c g)
  then obtain a d' where d: "d = a # d'" by (cases d) auto
  with Cons.prems have "a \<noteq> c" by auto
  with d have "\<not> prefix d (c # g @ d @ rest)" by simp
  with Cons show ?case by simp
qed

lemma lazyUntil_second:
  assumes "list_all ok g" and "d = a # b # d'" and "a \<noteq> b" and "b \<notin> set g"
  shows "lazyUntil ok d (g @ d @ rest) = Some (g, rest)"
  using assms
proof (induction g)
  case Nil
  then show ?case by simp
next
  case (Cons c g)
  have "\<not> prefix d (c # g @ d @ rest)"
  proof (cases g)
    case Nil
    with Cons.prems show ?thesis by simp
  next
    case (Cons e g')
    with Cons.prems show ?thesis by simp
  qed
  with Cons show ?case by simp
qed



lemma wikiLinkPrepass_plain:
  "CHR ''['' \<notin> set s \<Longrightarrow> wikiLinkPrepass (s @ rest) = s @ wikiLinkPrepass rest"
proof (induction s)
  case Nil
  then show ?case by simp
next
  case (Cons c s)
  then have "matchWikiLinkAt (c # s @ rest) = None" by (simp add: matchWikiLinkAt_def)
  with Cons show ?case by simp
qed


text \<open>
  The Enter handler on a task line. On a paragraph whose text matches the task pattern
  the handler deletes the text of the block, toggles a task list, inserts the captured
  remainder when it is not empty, sets \<open>checked\<close> on the task item exactly when the flag
  is \<open>x\<close> or \<open>X\<close>, issues Enter and reports the key as handled.
\<close>

lemma enterHandler_task_line:
  assumes "isWhiteSpace s1" and "isWhiteSpace s2"
    and "flag = CHR '' '' \<or> flag = CHR ''x'' \<or> flag = CHR ''X''"
    and "list_all (\<lambda>c. \<not> isLineTerminator c) rest"
  shows "enterHandler marked ''paragraph'' (CHR ''-'' # s1 # CHR ''['' # flag # CHR '']'' # s2 # rest)
         = ([Focus, DeleteBlockText, ToggleTaskList]
              @ (if rest \<noteq> [] then [InsertContent rest] else [])
              @ (if flag = CHR ''x'' \<or> flag = CHR ''X''
                 then [UpdateAttributes ''taskItem'' [(''checked'', True)]] else [])
              @ [EnterKey],
            True)"
proof -
  have t: "taskMatch (CHR ''-'' # s1 # CHR ''['' # flag # CHR '']'' # s2 # rest) = Some ([flag], rest)"
    using assms by (simp add: taskMatch_def)
  have "lowerChar (CHR ''x'') = CHR ''x''" "lowerChar (CHR ''X'') = CHR ''x''"
    "lowerChar (CHR '' '') = CHR '' ''"
    by code_simp+
  then have l: "(toLowerCase [flag] = ''x'') = (flag = CHR ''x'' \<or> flag = CHR ''X'')"
    using assms(3) by (auto simp: toLowerCase_def)
  show ?thesis by (simp add: enterHandler_def t l)
qed

lemma enterHandler_task_example:
  "enterHandler marked ''paragraph'' ''- [x] Buy milk''
     = ([Focus, DeleteBlockText, ToggleTaskList, InsertContent ''Buy milk'',
         UpdateAttributes ''taskItem'' [(''checked'', True)], EnterKey], True)"
  using enterHandler_task_line [of "CHR '' ''" "CHR '' ''" "CHR ''x''" "''Buy milk''" marked]
  by (simp add: isWhiteSpace_def isLineTerminator_def)

text \<open>
  The code-fence replacements on one block. For a block as \<open>marked\<close> writes it (the
  language has no quote and no line terminator, the escaped code has no \<open><\<close>), the
  replacement removes the line feed before the closing tags and goes on after the block.
\<close>

lemma stripLangFences_block:
  assumes "CHR 0x22 \<notin> set lang" and "\<forall>c \<in> set lang. \<not> isLineTerminator c"
    and "CHR ''<'' \<notin> set body"
  shows \<open>stripLangFences (''<pre><code class="language-'' @ lang @ ''">'' @ body @ codeClose @ rest)
         = ''<pre><code class="language-'' @ lang @ ''">'' @ body @ ''</code></pre>''
           @ stripLangFences rest\<close>
proof -
  have 1: \<open>lazyUntil (\<lambda>c. \<not> isLineTerminator c) ''">'' (lang @ ''">'' @ body @ codeClose @ rest)
           = Some (lang, body @ codeClose @ rest)\<close>
    using assms by (intro lazyUntil_first) (auto simp: list_all_iff)
  have 2: "lazyUntil (\<lambda>c. True) codeClose (body @ codeClose @ rest) = Some (body, rest)"
    using assms(3)
    by (intro lazyUntil_second [where a = "CHR ''\<newline>''" and b = "CHR ''<''"])
       (auto simp: codeClose_def list_all_iff)
  have \<open>matchLangFenceAt (''<pre><code class="language-'' @ lang @ ''">'' @ body @ codeClose @ rest)
        = Some (lang, body, rest)\<close>
    using 1 2 by (simp add: matchLangFenceAt_def)
  then show ?thesis by simp
qed

lemma stripPlainFences_block:
  assumes "CHR ''<'' \<notin> set body"
  shows \<open>stripPlainFences (''<pre><code>'' @ body @ codeClose @ rest)
         = ''<pre><code>'' @ body @ ''</code></pre>'' @ stripPlainFences rest\<close>
proof -
  have "lazyUntil (\<lambda>c. True) codeClose (body @ codeClose @ rest) = Some (body, rest)"
    using assms
    by (intro lazyUntil_second [where a = "CHR ''\<newline>''" and b = "CHR ''<''"])
       (auto simp: codeClose_def list_all_iff)
  then have \<open>matchPlainFenceAt (''<pre><code>'' @ body @ codeClose @ rest) = Some (body, rest)\<close>
    by (simp add: matchPlainFenceAt_def)
  then show ?thesis by simp
qed

lemma contentHtml_python_fence:
  assumes \<open>marked content = ''<pre><code class="language-python">print(1)\<newline></code></pre>\<newline>''\<close>
  shows \<open>contentHtml marked content = ''<pre><code class="language-python">print(1)</code></pre>\<newline>''\<close>
proof -
  have \<open>contentHtml (\<lambda>m. ''<pre><code class="language-python">print(1)\<newline></code></pre>\<newline>'') []
        = ''<pre><code class="language-python">print(1)</code></pre>\<newline>''\<close>
    by code_simp
  with assms show ?thesis by (simp only: contentHtml_def)
qed

section \<open>A small library that meets the assumptions\<close>

text \<open>
  The assumptions on the libraries can be met: the functions below read the two shapes
  of HTML of the examples and write what \<open>delegatesAnchor\<close> and \<open>writesFence\<close> ask for.
  They serve as the instance at which the theorems with these assumptions are applied.
\<close>

definition readSentence :: "string \<Rightarrow> (string \<times> string) option" where
  \<open>readSentence html =
     (if prefix ''<p>See <a href="'' html
      then (case lazyUntil (\<lambda>c. True) ''" class="wiki-link">''
                   (drop (length ''<p>See <a href="'') html) of
              None \<Rightarrow> None
            | Some (h, r1) \<Rightarrow>
                (case lazyUntil (\<lambda>c. True) ''</a> for details.</p>\<newline>'' r1 of
                   None \<Rightarrow> None
                 | Some (c, r2) \<Rightarrow> if r2 = [] then Some (h, c) else None))
      else None)\<close>

definition readFence :: "string \<Rightarrow> (string \<times> string) option" where
  \<open>readFence html =
     (if prefix ''<pre><code class="language-'' html
      then (case lazyUntil (\<lambda>c. True) ''">''
                   (drop (length ''<pre><code class="language-'') html) of
              None \<Rightarrow> None
            | Some (lang, r1) \<Rightarrow>
                (case lazyUntil (\<lambda>c. True) ''</code></pre>\<newline>'' r1 of
                   None \<Rightarrow> None
                 | Some (code, r2) \<Rightarrow> if r2 = [] then Some (lang, code) else None))
      else None)\<close>

definition demoLibrary :: serialiserLibrary where
  \<open>demoLibrary opts rules html =
     (case readFence html of
        Some (lang, code) \<Rightarrow>
          if codeBlockStyle opts = ''fenced''
          then (if list_ex (\<lambda>c. \<not> isWhiteSpace c) code
                then ''```'' @ lang @ ''\<newline>'' @ code @ ''\<newline>```'' else [])
          else html
      | None \<Rightarrow>
          (case readSentence html of
             Some (h, c) \<Rightarrow>
               (case rules of
                  (name, f, r) # _ \<Rightarrow>
                    if f \<lparr>nodeName = ''A'', hrefAttr = Some h\<rparr>
                    then ''See '' @ r c \<lparr>nodeName = ''A'', hrefAttr = Some h\<rparr> @ '' for details.''
                    else html
                | [] \<Rightarrow> html)
           | None \<Rightarrow> html))\<close>


lemma simpleCode_chars: "simpleCode s \<Longrightarrow> CHR ''<'' \<notin> set s"
  by (auto simp: simpleCode_def list_all_iff isWordChar_def)

lemma wordChars_no_quote: "list_all isWordChar s \<Longrightarrow> CHR 0x22 \<notin> set s"
  by (auto simp: list_all_iff isWordChar_def)


lemma readFence_fence:
  assumes "list_all isWordChar lang" and "simpleCode code"
  shows \<open>readFence (''<pre><code class="language-'' @ lang @ ''">'' @ code @ ''</code></pre>\<newline>'')
         = Some (lang, code)\<close>
proof -
  have 1: \<open>lazyUntil (\<lambda>c. True) ''">'' (lang @ ''">'' @ (code @ ''</code></pre>\<newline>''))
           = Some (lang, code @ ''</code></pre>\<newline>'')\<close>
    using wordChars_no_quote [OF assms(1)] by (intro lazyUntil_first) (auto simp: list_all_iff)
  have 2: \<open>lazyUntil (\<lambda>c. True) ''</code></pre>\<newline>'' (code @ ''</code></pre>\<newline>'' @ [])
           = Some (code, [])\<close>
    using simpleCode_chars [OF assms(2)] by (intro lazyUntil_first) (auto simp: list_all_iff)
  show ?thesis using 1 2 by (simp add: readFence_def)
qed



lemma demoLibrary_writesFence: "writesFence demoLibrary"
  unfolding writesFence_def
proof (intro allI impI)
  fix opts :: turndownOptions and rules :: "turndownRule list" and lang code
  assume a: "codeBlockStyle opts = ''fenced''
          \<and> list_all (\<lambda>(name, f, r). \<not> f \<lparr>nodeName = ''PRE'', hrefAttr = None\<rparr>
                                    \<and> \<not> f \<lparr>nodeName = ''CODE'', hrefAttr = None\<rparr>) rules
          \<and> lang \<noteq> [] \<and> list_all isWordChar lang
          \<and> simpleCode code \<and> list_ex (\<lambda>c. \<not> isWhiteSpace c) code"
  with readFence_fence [of lang code]
  show \<open>demoLibrary opts rules
            (''<pre><code class="language-'' @ lang @ ''">'' @ code @ ''</code></pre>\<newline>'')
          = ''```'' @ lang @ ''\<newline>'' @ code @ ''\<newline>```''\<close>
    by (simp add: demoLibrary_def del: append.simps)
qed


definition demoMarkedFence :: "string \<Rightarrow> string" where
  \<open>demoMarkedFence m = ''<pre><code class="language-python">print(1)\<newline></code></pre>\<newline>''\<close>

section \<open>Properties of the wiki-link conversion\<close>



section \<open>Properties of the code-fence normalisation\<close>

text \<open>
  C5. Let \<open>marked\<close> render the fenced example as a code element tagged
  \<open>language-python\<close> whose content ends with the line feed it adds, and let the libraries
  meet \<open>writesFence\<close> (a fence for every code element whose code is not blank). Then the HTML from which the editor builds the document holds the
  code element with content exactly \<open>print(1)\<close>; serialising it returns the fence of the
  input, with its tag and content; and a second round trip returns the same again. In
  general, for a code block as \<open>marked\<close> writes it (no quote or line terminator in the
  language, no \<open><\<close> in the escaped code), each replacement removes the line feed before
  the closing tags and goes on after the block.
\<close>

theorem codeFence_roundTrip:
  assumes \<open>marked ''```python\<newline>print(1)\<newline>```''
             = ''<pre><code class="language-python">print(1)\<newline></code></pre>\<newline>''\<close>
    and "writesFence lib"
  shows \<open>contentHtml marked ''```python\<newline>print(1)\<newline>```''
           = ''<pre><code class="language-python">print(1)</code></pre>\<newline>''
         \<and> onUpdate lib (contentHtml marked ''```python\<newline>print(1)\<newline>```'')
             = ''```python\<newline>print(1)\<newline>```''
         \<and> onUpdate lib (contentHtml marked
               (onUpdate lib (contentHtml marked ''```python\<newline>print(1)\<newline>```'')))
             = onUpdate lib (contentHtml marked ''```python\<newline>print(1)\<newline>```'')
         \<and> (CHR 0x22 \<notin> set lang \<and> (\<forall>c \<in> set lang. \<not> isLineTerminator c)
              \<and> CHR ''<'' \<notin> set body \<longrightarrow>
              stripLangFences (''<pre><code class="language-'' @ lang @ ''">'' @ body
                               @ ''\<newline></code></pre>'' @ rest)
                = ''<pre><code class="language-'' @ lang @ ''">'' @ body @ ''</code></pre>''
                  @ stripLangFences rest)
         \<and> (CHR ''<'' \<notin> set body \<longrightarrow>
              stripPlainFences (''<pre><code>'' @ body @ ''\<newline></code></pre>'' @ rest)
                = ''<pre><code>'' @ body @ ''</code></pre>'' @ stripPlainFences rest)\<close>
proof -
  have e: \<open>contentHtml marked ''```python\<newline>print(1)\<newline>```''
           = ''<pre><code class="language-'' @ ''python'' @ ''">'' @ ''print(1)''
             @ ''</code></pre>\<newline>''\<close>
    using contentHtml_python_fence [of marked "''```python\<newline>print(1)\<newline>```''", OF assms(1)]
    by simp
  have "codeBlockStyle serviceOptions = ''fenced''" by (simp add: serviceOptions_def)
  moreover have "list_all (\<lambda>(name, f, r). \<not> f \<lparr>nodeName = ''PRE'', hrefAttr = None\<rparr>
                                    \<and> \<not> f \<lparr>nodeName = ''CODE'', hrefAttr = None\<rparr>) serviceRules"
    by (simp add: serviceRules_def wikiLinksFilter_def)
  moreover have "''python'' \<noteq> []" by simp
  moreover have "list_all isWordChar ''python''" "simpleCode ''print(1)''"
    "list_ex (\<lambda>c. \<not> isWhiteSpace c) ''print(1)''" by code_simp+
  ultimately have \<open>lib serviceOptions serviceRules
          (''<pre><code class="language-'' @ ''python'' @ ''">'' @ ''print(1)''
             @ ''</code></pre>\<newline>'')
        = ''```'' @ ''python'' @ ''\<newline>'' @ ''print(1)'' @ ''\<newline>```''\<close>
    using assms(2) unfolding writesFence_def by blast
  then have rt: \<open>onUpdate lib (contentHtml marked ''```python\<newline>print(1)\<newline>```'')
             = ''```python\<newline>print(1)\<newline>```''\<close>
    by (simp only: onUpdate_def e) simp
  have l: \<open>CHR 0x22 \<notin> set lang \<and> (\<forall>c \<in> set lang. \<not> isLineTerminator c)
              \<and> CHR ''<'' \<notin> set body \<longrightarrow>
              stripLangFences (''<pre><code class="language-'' @ lang @ ''">'' @ body
                               @ ''\<newline></code></pre>'' @ rest)
                = ''<pre><code class="language-'' @ lang @ ''">'' @ body @ ''</code></pre>''
                  @ stripLangFences rest\<close>
    using stripLangFences_block [of lang body rest] by (simp add: codeClose_def)
  have q: \<open>CHR ''<'' \<notin> set body \<longrightarrow>
              stripPlainFences (''<pre><code>'' @ body @ ''\<newline></code></pre>'' @ rest)
                = ''<pre><code>'' @ body @ ''</code></pre>'' @ stripPlainFences rest\<close>
    using stripPlainFences_block [of body rest] by (simp add: codeClose_def)
  from contentHtml_python_fence [of marked "''```python\<newline>print(1)\<newline>```''", OF assms(1)]
    rt l q show ?thesis
    by (intro conjI) (simp_all only:)
qed

theorem codeFence_roundTrip_witness:
  \<open>contentHtml demoMarkedFence ''```python\<newline>print(1)\<newline>```''
      = ''<pre><code class="language-python">print(1)</code></pre>\<newline>''
   \<and> onUpdate demoLibrary (contentHtml demoMarkedFence ''```python\<newline>print(1)\<newline>```'')
      = ''```python\<newline>print(1)\<newline>```''
   \<and> stripPlainFences (''<pre><code>'' @ ''x = 1'' @ ''\<newline></code></pre>'' @ ''<p>done</p>'')
      = ''<pre><code>'' @ ''x = 1'' @ ''</code></pre>'' @ stripPlainFences ''<p>done</p>''\<close>
proof -
  have m: \<open>demoMarkedFence ''```python\<newline>print(1)\<newline>```''
           = ''<pre><code class="language-python">print(1)\<newline></code></pre>\<newline>''\<close>
    by (simp add: demoMarkedFence_def)
  have c: "CHR ''<'' \<notin> set ''x = 1''" by simp
  note t = codeFence_roundTrip [where marked = demoMarkedFence
      and lib = demoLibrary and body = "''x = 1''" and rest = "''<p>done</p>''" and lang = "''py''",
      OF m demoLibrary_writesFence]
  show ?thesis
    by (intro conjI)
       (rule t [THEN conjunct1],
        rule t [THEN conjunct2, THEN conjunct1],
        rule t [THEN conjunct2, THEN conjunct2, THEN conjunct2, THEN conjunct2, THEN mp, OF c])
qed

section \<open>Properties of the graph extraction\<close>

definition ends :: "GraphLink \<Rightarrow> string \<times> string" where
  "ends l = (source_link l, target_link l)"

fun firsts :: "(string \<times> string) set \<Rightarrow> GraphLink list \<Rightarrow> GraphLink list" where
  "firsts S [] = []"
| "firsts S (l # ls) = (if ends l \<in> S then firsts S ls else l # firsts (insert (ends l) S) ls)"

lemma findIndex_conv:
  "findIndex P xs = (if \<exists>x\<in>set xs. P x then int (length (takeWhile (\<lambda>x. \<not> P x) xs)) else - 1)"
  by (induction xs) (auto simp: Let_def)

lemma findIndex_at:
  assumes "P l"
  shows "(int (length pre) = findIndex P (pre @ l # ls)) = (\<forall>x\<in>set pre. \<not> P x)"
proof (cases "\<forall>x\<in>set pre. \<not> P x")
  case True
  then have "takeWhile (\<lambda>x. \<not> P x) (pre @ l # ls) = pre"
    using assms by (simp add: takeWhile_append2)
  with True assms show ?thesis by (simp add: findIndex_conv)
next
  case False
  then obtain x where x: "x \<in> set pre" "P x" by auto
  then have "takeWhile (\<lambda>x. \<not> P x) (pre @ l # ls) = takeWhile (\<lambda>x. \<not> P x) pre"
    by (simp add: takeWhile_append1)
  moreover have "length (takeWhile (\<lambda>x. \<not> P x) pre) < length pre"
    using x by (induction pre) auto
  ultimately show ?thesis using False assms by (auto simp: findIndex_conv)
qed

lemma uniqueLinks_firsts_aux:
  "map snd (filter (\<lambda>(index, link). int index = findIndex (sameEnds link) (pre @ xs))
              (enumerate (length pre) xs))
   = firsts (ends ` set pre) xs"
proof (induction xs arbitrary: pre)
  case Nil
  then show ?case by simp
next
  case (Cons l ls)
  have hd: "(int (length pre) = findIndex (sameEnds l) (pre @ l # ls)) = (ends l \<notin> ends ` set pre)"
  proof -
    have "sameEnds l l" by (simp add: sameEnds_def)
    from findIndex_at [of "sameEnds l" l pre ls, OF this]
    have "(int (length pre) = findIndex (sameEnds l) (pre @ l # ls))
            = (\<forall>x\<in>set pre. \<not> sameEnds l x)" .
    also have "\<dots> = (ends l \<notin> ends ` set pre)"
      by (auto simp: sameEnds_def ends_def image_iff)
    finally show ?thesis .
  qed
  have tl: "map snd (filter (\<lambda>(index, link). int index = findIndex (sameEnds link) (pre @ l # ls))
              (enumerate (Suc (length pre)) ls))
            = firsts (insert (ends l) (ends ` set pre)) ls"
    using Cons.IH [of "pre @ [l]"] by simp
  show ?case
  proof (cases "ends l \<in> ends ` set pre")
    case True
    then have "insert (ends l) (ends ` set pre) = ends ` set pre" by auto
    with True hd tl show ?thesis by simp
  next
    case False
    with hd tl show ?thesis by simp
  qed
qed

lemma uniqueLinks_firsts: "uniqueLinks ls = firsts {} ls"
  using uniqueLinks_firsts_aux [of "[]" ls] by (simp add: uniqueLinks_def)

lemma firsts_distinct:
  "distinct (map ends (firsts S ls)) \<and> ends ` set (firsts S ls) \<inter> S = {}
   \<and> set (firsts S ls) \<subseteq> set ls"
  by (induction ls arbitrary: S) auto

lemma noteLinks_props:
  "l \<in> set (noteLinks m n) \<Longrightarrow> value_link l = 1 \<and> source_link l \<noteq> target_link l"
  by (auto simp: noteLinks_def List.map_filter_def Let_def split: option.splits if_splits)

lemma noteLinks_source:
  "l \<in> set (noteLinks m n) \<Longrightarrow> source_link l = id_note n"
  by (auto simp: noteLinks_def List.map_filter_def Let_def split: option.splits if_splits)

lemma firsts_filter_none:
  "\<forall>l \<in> set ls. \<not> P l \<Longrightarrow> filter P (firsts S ls) = []"
  using firsts_distinct [of S ls] by (auto simp: filter_empty_conv)

lemma example_captures: "wikiLinkCaptures ''[[B]] and [[B]] again'' = [''B'', ''B'']"
  by code_simp

lemma example_target: "toLowerCase (trim ''B'') = ''b''"
  by code_simp

lemma example_titles: "toLowerCase ''A'' = ''a''" "toLowerCase ''B'' = ''b''"
  by code_simp+

lemma map_of_rev_last:
  "map_of (rev (map (\<lambda>n. (f n, g n)) ns)) k =
     (if filter (\<lambda>n. f n = k) ns = [] then None
      else Some (g (last (filter (\<lambda>n. f n = k) ns))))"
  by (induction ns rule: rev_induct) auto

lemma noteTitleToIdMap_last:
  "noteTitleToIdMap ns k =
     (if filter (\<lambda>m. toLowerCase (title_note m) = k) ns = [] then None
      else Some (id_note (last (filter (\<lambda>m. toLowerCase (title_note m) = k) ns))))"
  unfolding noteTitleToIdMap_def by (rule map_of_rev_last)

lemma firsts_ends: "ends ` set (firsts S ls) = ends ` set ls - S"
  by (induction ls arbitrary: S) auto

lemma firsts_set_same:
  assumes "\<forall>l \<in> set ls. value_link l = 1"
  shows "set (firsts {} ls) = set ls"
proof
  show "set (firsts {} ls) \<subseteq> set ls" using firsts_distinct [of "{}" ls] by simp
  show "set ls \<subseteq> set (firsts {} ls)"
  proof
    fix l assume l: "l \<in> set ls"
    then have "ends l \<in> ends ` set (firsts {} ls)" by (simp add: firsts_ends)
    then obtain l' where l': "l' \<in> set (firsts {} ls)" "ends l' = ends l" by auto
    then have "l' \<in> set ls" using firsts_distinct [of "{}" ls] by auto
    with assms l have "value_link l' = value_link l" by simp
    with l'(2) have "l' = l" by (simp add: ends_def)
    with l'(1) show "l \<in> set (firsts {} ls)" by simp
  qed
qed

lemma noteLinks_set:
  "set (noteLinks (noteTitleToIdMap ns) n) =
     {l. \<exists>g. g \<in> set (wikiLinkCaptures (content_note n))
          \<and> filter (\<lambda>m. toLowerCase (title_note m)
                           = toLowerCase (trim (takeWhile (\<lambda>c. c \<noteq> CHR ''|'') g))) ns \<noteq> []
          \<and> l = \<lparr>source_link = id_note n,
                  target_link = id_note (last (filter (\<lambda>m. toLowerCase (title_note m)
                           = toLowerCase (trim (takeWhile (\<lambda>c. c \<noteq> CHR ''|'') g))) ns)),
                  value_link = 1\<rparr>
          \<and> id_note (last (filter (\<lambda>m. toLowerCase (title_note m)
                           = toLowerCase (trim (takeWhile (\<lambda>c. c \<noteq> CHR ''|'') g))) ns))
              \<noteq> id_note n}"
  by (auto simp: noteLinks_def List.map_filter_def Let_def noteTitleToIdMap_last image_iff
           split: option.splits if_splits)

lemma wikiLinkCaptures_plain:
  "CHR ''['' \<notin> set s \<Longrightarrow> wikiLinkCaptures (s @ rest) = wikiLinkCaptures rest"
proof (induction s)
  case Nil
  then show ?case by simp
next
  case (Cons c s)
  then have "matchWikiLinkAt (c # s @ rest) = None" by (simp add: matchWikiLinkAt_def)
  with Cons show ?case by simp
qed

lemma wikiLinkCaptures_token:
  assumes "\<forall>c \<in> set g. \<not> isLineTerminator c" and "CHR '']'' \<notin> set g"
  shows "wikiLinkCaptures (''[['' @ g @ '']]'' @ rest) = g # wikiLinkCaptures rest"
proof -
  have "lazyUntil (\<lambda>c. \<not> isLineTerminator c) '']]'' (g @ '']]'' @ rest) = Some (g, rest)"
    using assms by (intro lazyUntil_first) (auto simp: list_all_iff)
  then have "matchWikiLinkAt (''[['' @ g @ '']]'' @ rest) = Some (g, rest)"
    by (simp add: matchWikiLinkAt_def)
  then show ?thesis by simp
qed

definition exCorpus :: "Note list" where
  "exCorpus =
     [\<lparr>id_note = ''a'', title_note = ''A'', content_note = ''[[C]] then [[B]] and [[b|again]]'',
        folderId_note = None\<rparr>,
      \<lparr>id_note = ''b'', title_note = ''B'', content_note = ''back to [[A]] and [[B]]'',
        folderId_note = None\<rparr>,
      \<lparr>id_note = ''c'', title_note = ''C'', content_note = ''[[nobody]]'', folderId_note = None\<rparr>]"

lemma exCorpus_links:
  "links (generateGraphData exCorpus [])
     = [\<lparr>source_link = ''a'', target_link = ''c'', value_link = 1\<rparr>,
        \<lparr>source_link = ''a'', target_link = ''b'', value_link = 1\<rparr>,
        \<lparr>source_link = ''b'', target_link = ''a'', value_link = 1\<rparr>]"
  by code_simp

text \<open>
  C7. For every corpus the links of the graph have pairwise different (source, target)
  pairs, each has value 1, and none has its source as its target. The links are exactly
  these: one link of value 1 from a note to the note that a wiki-link of its content
  resolves to (the last note whose title in lower case is the text before the first
  \<open>|\<close> of the capture, trimmed and in lower case), when that note has another id; so
  every linked pair keeps its edge and several wiki-links between the same two notes
  give one link. A token whose inner text has no \<open>]\<close> and no line terminator, after text
  without \<open>[\<close>, is the next capture. For a note A with content
  \<open>[[B]] and [[B]] again\<close> and a note B (of another id, with any content), the graph has
  exactly one link from A to B, of value 1.
\<close>

theorem generateGraphData_links:
  "distinct (map (\<lambda>l. (source_link l, target_link l)) (links (generateGraphData notes folders)))
   \<and> (\<forall>l \<in> set (links (generateGraphData notes folders)).
         value_link l = 1 \<and> source_link l \<noteq> target_link l)
   \<and> set (links (generateGraphData notes folders)) =
       {l. \<exists>n g. n \<in> set notes \<and> g \<in> set (wikiLinkCaptures (content_note n))
          \<and> filter (\<lambda>m. toLowerCase (title_note m)
                           = toLowerCase (trim (takeWhile (\<lambda>c. c \<noteq> CHR ''|'') g))) notes \<noteq> []
          \<and> l = \<lparr>source_link = id_note n,
                  target_link = id_note (last (filter (\<lambda>m. toLowerCase (title_note m)
                           = toLowerCase (trim (takeWhile (\<lambda>c. c \<noteq> CHR ''|'') g))) notes)),
                  value_link = 1\<rparr>
          \<and> id_note (last (filter (\<lambda>m. toLowerCase (title_note m)
                           = toLowerCase (trim (takeWhile (\<lambda>c. c \<noteq> CHR ''|'') g))) notes))
              \<noteq> id_note n}
   \<and> (CHR ''['' \<notin> set before \<and> (\<forall>c \<in> set inner. \<not> isLineTerminator c)
        \<and> CHR '']'' \<notin> set inner \<longrightarrow>
        wikiLinkCaptures (before @ ''[['' @ inner @ '']]'' @ rest) = inner # wikiLinkCaptures rest)
   \<and> (idA \<noteq> idB \<longrightarrow>
        filter (\<lambda>l. source_link l = idA \<and> target_link l = idB)
          (links (generateGraphData
             [\<lparr>id_note = idA, title_note = ''A'', content_note = ''[[B]] and [[B]] again'',
                folderId_note = folderA\<rparr>,
              \<lparr>id_note = idB, title_note = ''B'', content_note = contentB,
                folderId_note = folderB\<rparr>] folders))
        = [\<lparr>source_link = idA, target_link = idB, value_link = 1\<rparr>])"
proof -
  let ?all = "concat (map (noteLinks (noteTitleToIdMap notes)) notes)"
  have l: "links (generateGraphData notes folders) = firsts {} ?all"
    by (simp add: generateGraphData_def uniqueLinks_firsts)
  have d: "distinct (map ends (firsts {} ?all))" and s: "set (firsts {} ?all) \<subseteq> set ?all"
    using firsts_distinct [of "{}" ?all] by auto
  have p: "\<forall>l \<in> set ?all. value_link l = 1 \<and> source_link l \<noteq> target_link l"
    using noteLinks_props by auto
  then have "\<forall>l \<in> set ?all. value_link l = 1" by blast
  then have "set (firsts {} ?all) = set ?all" by (rule firsts_set_same)
  also have "\<dots> = (\<Union>n \<in> set notes. set (noteLinks (noteTitleToIdMap notes) n))" by simp
  also have "\<dots> = {l. \<exists>n g. n \<in> set notes \<and> g \<in> set (wikiLinkCaptures (content_note n))
          \<and> filter (\<lambda>m. toLowerCase (title_note m)
                           = toLowerCase (trim (takeWhile (\<lambda>c. c \<noteq> CHR ''|'') g))) notes \<noteq> []
          \<and> l = \<lparr>source_link = id_note n,
                  target_link = id_note (last (filter (\<lambda>m. toLowerCase (title_note m)
                           = toLowerCase (trim (takeWhile (\<lambda>c. c \<noteq> CHR ''|'') g))) notes)),
                  value_link = 1\<rparr>
          \<and> id_note (last (filter (\<lambda>m. toLowerCase (title_note m)
                           = toLowerCase (trim (takeWhile (\<lambda>c. c \<noteq> CHR ''|'') g))) notes))
              \<noteq> id_note n}"
    unfolding noteLinks_set by blast
  finally have x: "set (links (generateGraphData notes folders)) =
       {l. \<exists>n g. n \<in> set notes \<and> g \<in> set (wikiLinkCaptures (content_note n))
          \<and> filter (\<lambda>m. toLowerCase (title_note m)
                           = toLowerCase (trim (takeWhile (\<lambda>c. c \<noteq> CHR ''|'') g))) notes \<noteq> []
          \<and> l = \<lparr>source_link = id_note n,
                  target_link = id_note (last (filter (\<lambda>m. toLowerCase (title_note m)
                           = toLowerCase (trim (takeWhile (\<lambda>c. c \<noteq> CHR ''|'') g))) notes)),
                  value_link = 1\<rparr>
          \<and> id_note (last (filter (\<lambda>m. toLowerCase (title_note m)
                           = toLowerCase (trim (takeWhile (\<lambda>c. c \<noteq> CHR ''|'') g))) notes))
              \<noteq> id_note n}"
    using l by (simp only:)
  have c: "CHR ''['' \<notin> set before \<and> (\<forall>c \<in> set inner. \<not> isLineTerminator c)
        \<and> CHR '']'' \<notin> set inner \<longrightarrow>
        wikiLinkCaptures (before @ ''[['' @ inner @ '']]'' @ rest) = inner # wikiLinkCaptures rest"
    using wikiLinkCaptures_plain [of before "''[['' @ inner @ '']]'' @ rest"]
      wikiLinkCaptures_token [of inner rest]
    by (simp del: wikiLinkCaptures.simps)
  have e: "filter (\<lambda>l. source_link l = idA \<and> target_link l = idB)
          (links (generateGraphData
             [\<lparr>id_note = idA, title_note = ''A'', content_note = ''[[B]] and [[B]] again'',
                folderId_note = folderA\<rparr>,
              \<lparr>id_note = idB, title_note = ''B'', content_note = contentB,
                folderId_note = folderB\<rparr>] folders))
        = [\<lparr>source_link = idA, target_link = idB, value_link = 1\<rparr>]" if ne: "idA \<noteq> idB"
  proof -
    let ?A = "\<lparr>id_note = idA, title_note = ''A'', content_note = ''[[B]] and [[B]] again'',
                folderId_note = folderA\<rparr>"
    let ?B = "\<lparr>id_note = idB, title_note = ''B'', content_note = contentB,
                folderId_note = folderB\<rparr>"
    let ?m = "noteTitleToIdMap [?A, ?B]"
    let ?l = "\<lparr>source_link = idA, target_link = idB, value_link = 1\<rparr>"
    let ?P = "\<lambda>l. source_link l = idA \<and> target_link l = idB"
    have m: "?m ''b'' = Some idB"
      by (simp add: noteTitleToIdMap_def example_titles)
    have a: "noteLinks ?m ?A = [?l, ?l]"
      using ne by (simp add: noteLinks_def example_captures example_target m
          del: wikiLinkCaptures.simps)
    have b: "\<forall>l \<in> set (noteLinks ?m ?B). \<not> ?P l"
      using ne noteLinks_source [of _ ?m ?B] by auto
    have "links (generateGraphData [?A, ?B] folders) = firsts {} ([?l, ?l] @ noteLinks ?m ?B)"
      by (simp add: generateGraphData_def uniqueLinks_firsts a)
    also have "\<dots> = ?l # firsts {ends ?l} (noteLinks ?m ?B)"
      by simp
    finally show ?thesis
      using firsts_filter_none [of "noteLinks ?m ?B" ?P "{ends ?l}"] b by simp
  qed
  have dd: "distinct (map (\<lambda>l. (source_link l, target_link l)) (links (generateGraphData notes folders)))"
    using l d by (simp add: ends_def [abs_def])
  have pp: "\<forall>l \<in> set (links (generateGraphData notes folders)).
         value_link l = 1 \<and> source_link l \<noteq> target_link l"
    using l s p by auto
  have ee: "idA \<noteq> idB \<longrightarrow>
        filter (\<lambda>l. source_link l = idA \<and> target_link l = idB)
          (links (generateGraphData
             [\<lparr>id_note = idA, title_note = ''A'', content_note = ''[[B]] and [[B]] again'',
                folderId_note = folderA\<rparr>,
              \<lparr>id_note = idB, title_note = ''B'', content_note = contentB,
                folderId_note = folderB\<rparr>] folders))
        = [\<lparr>source_link = idA, target_link = idB, value_link = 1\<rparr>]"
    using e by (rule impI)
  show ?thesis
    by (intro conjI) (rule dd, rule pp, rule x, rule c, rule ee)
qed

theorem generateGraphData_links_witness:
  "''a'' \<noteq> ''b''
   \<and> links (generateGraphData exCorpus [])
       = [\<lparr>source_link = ''a'', target_link = ''c'', value_link = 1\<rparr>,
          \<lparr>source_link = ''a'', target_link = ''b'', value_link = 1\<rparr>,
          \<lparr>source_link = ''b'', target_link = ''a'', value_link = 1\<rparr>]
   \<and> distinct (map (\<lambda>l. (source_link l, target_link l)) (links (generateGraphData exCorpus [])))
   \<and> filter (\<lambda>l. source_link l = ''a'' \<and> target_link l = ''b'')
        (links (generateGraphData
           [\<lparr>id_note = ''a'', title_note = ''A'', content_note = ''[[B]] and [[B]] again'',
              folderId_note = None\<rparr>,
            \<lparr>id_note = ''b'', title_note = ''B'', content_note = '''',
              folderId_note = None\<rparr>] []))
       = [\<lparr>source_link = ''a'', target_link = ''b'', value_link = 1\<rparr>]
   \<and> wikiLinkCaptures (''see '' @ ''[['' @ ''B|b'' @ '']]'' @ '' end'')
       = ''B|b'' # wikiLinkCaptures '' end''"
proof -
  have ne: "''a'' \<noteq> ''b''" by simp
  have cond: "CHR ''['' \<notin> set ''see '' \<and> (\<forall>c \<in> set ''B|b''. \<not> isLineTerminator c)
        \<and> CHR '']'' \<notin> set ''B|b''"
    by (simp add: isLineTerminator_def)
  note t = generateGraphData_links [where ?notes = exCorpus and folders = "[]"
      and idA = "''a''" and idB = "''b''" and folderA = None and folderB = None
      and contentB = "''''" and before = "''see ''" and inner = "''B|b''" and rest = "'' end''"]
  show ?thesis
    by (intro conjI)
       (rule ne, rule exCorpus_links, rule t [THEN conjunct1],
        rule t [THEN conjunct2, THEN conjunct2, THEN conjunct2, THEN conjunct2, THEN mp, OF ne],
        rule t [THEN conjunct2, THEN conjunct2, THEN conjunct2, THEN conjunct1, THEN mp, OF cond])
qed

section \<open>Properties of the backlinks\<close>

lemma includesStr_sublist: "includesStr s t = sublist t s"
  by (induction s) (auto simp: sublist_Cons_right)

lemma lower_wiki_close:
  "toLowerCase (''[['' @ t @ '']]'') = ''[['' @ toLowerCase t @ '']]''"
  by (simp add: toLowerCase_def lowerChar_def)

lemma lower_wiki_pipe:
  "toLowerCase (''[['' @ t @ ''|'') = ''[['' @ toLowerCase t @ ''|''"
  by (simp add: toLowerCase_def lowerChar_def)

text \<open>
  C8. For a note A of the corpus (the note its id finds), the backlinks of A are exactly
  the notes of another id whose content in lower case contains the lower case of
  \<open>[[\<close> + title + \<open>]]\<close> or of \<open>[[\<close> + title + \<open>|\<close>, as a contiguous substring. When the ids
  of the corpus are pairwise different, these are the notes other than A itself.
\<close>

theorem getBacklinks_exact:
  assumes "find (\<lambda>n. id_note n = id_note A) ns = Some A"
  shows "set (getBacklinks ns (id_note A)) =
           {B \<in> set ns. id_note B \<noteq> id_note A \<and>
              (sublist (toLowerCase (''[['' @ title_note A @ '']]'')) (toLowerCase (content_note B))
               \<or> sublist (toLowerCase (''[['' @ title_note A @ ''|'')) (toLowerCase (content_note B)))}
         \<and> (distinct (map id_note ns) \<longrightarrow>
         set (getBacklinks ns (id_note A)) =
           {B \<in> set ns. B \<noteq> A \<and>
              (sublist (toLowerCase (''[['' @ title_note A @ '']]'')) (toLowerCase (content_note B))
               \<or> sublist (toLowerCase (''[['' @ title_note A @ ''|'')) (toLowerCase (content_note B)))})"
proof -
  let ?m = "\<lambda>B. sublist (toLowerCase (''[['' @ title_note A @ '']]'')) (toLowerCase (content_note B))
               \<or> sublist (toLowerCase (''[['' @ title_note A @ ''|'')) (toLowerCase (content_note B))"
  have g: "set (getBacklinks ns (id_note A)) = {B \<in> set ns. id_note B \<noteq> id_note A \<and> ?m B}"
    unfolding lower_wiki_close lower_wiki_pipe
    using assms by (auto simp: getBacklinks_def Let_def includesStr_sublist)
  have "set (getBacklinks ns (id_note A)) = {B \<in> set ns. B \<noteq> A \<and> ?m B}"
    if d: "distinct (map id_note ns)"
  proof -
    have "A \<in> set ns" using assms by (auto simp: find_Some_iff)
    with d have "\<And>B. B \<in> set ns \<Longrightarrow> (id_note B \<noteq> id_note A) = (B \<noteq> A)"
      by (auto simp: distinct_map inj_on_def)
    with g show ?thesis by auto
  qed
  with g show ?thesis by blast
qed

definition exNotes :: "Note list" where
  "exNotes =
     [\<lparr>id_note = ''a'', title_note = ''Alpha'', content_note = ''nothing'', folderId_note = None\<rparr>,
      \<lparr>id_note = ''b'', title_note = ''B'', content_note = ''see [[ALPHA|the first]]'', folderId_note = None\<rparr>,
      \<lparr>id_note = ''c'', title_note = ''C'', content_note = ''see [[alpha]] and [[Alphabet]]'', folderId_note = None\<rparr>,
      \<lparr>id_note = ''d'', title_note = ''D'', content_note = ''see [[Alphabet]]'', folderId_note = None\<rparr>]"

theorem getBacklinks_exact_witness:
  "find (\<lambda>n. id_note n = id_note (hd exNotes)) exNotes = Some (hd exNotes)
   \<and> getBacklinks exNotes ''a'' = [exNotes ! 1, exNotes ! 2]
   \<and> set (getBacklinks exNotes (id_note (hd exNotes))) =
       {B \<in> set exNotes. id_note B \<noteq> id_note (hd exNotes) \<and>
          (sublist (toLowerCase (''[['' @ title_note (hd exNotes) @ '']]''))
             (toLowerCase (content_note B))
           \<or> sublist (toLowerCase (''[['' @ title_note (hd exNotes) @ ''|''))
                (toLowerCase (content_note B)))}"
proof -
  have f: "find (\<lambda>n. id_note n = id_note (hd exNotes)) exNotes = Some (hd exNotes)"
    by (simp add: exNotes_def)
  have e: "getBacklinks exNotes ''a'' = [exNotes ! 1, exNotes ! 2]"
    by code_simp
  from getBacklinks_exact [OF f] f e show ?thesis by simp
qed

section \<open>Properties of the folder moves\<close>

lemma parentRel_step: "(c, p) \<in> parentRel fs \<longleftrightarrow> parentOf fs c = Some p \<and> p \<noteq> []"
  by (simp add: parentRel_def)

lemma find_Some_mem: "find P xs = Some x \<Longrightarrow> x \<in> set xs \<and> P x"
  by (induction xs) (auto split: if_splits)

lemma parentOf_Some:
  "parentOf fs c = Some p \<Longrightarrow> \<exists>f \<in> set fs. id_folder f = c \<and> parentId_folder f = Some p"
  by (auto simp: parentOf_def split: option.splits dest: find_Some_mem)

lemma parentRel_finite: "finite (parentRel fs)"
proof -
  have "parentRel fs \<subseteq> (id_folder ` set fs) \<times> (the ` parentId_folder ` set fs)"
  proof
    fix e assume "e \<in> parentRel fs"
    then obtain c p where e: "e = (c, p)" and "parentOf fs c = Some p"
      by (auto simp: parentRel_def)
    then obtain f where "f \<in> set fs" "id_folder f = c" "parentId_folder f = Some p"
      using parentOf_Some by blast
    then have "c \<in> id_folder ` set fs" "p \<in> the ` parentId_folder ` set fs"
      by (force simp: image_iff)+
    with e show "e \<in> (id_folder ` set fs) \<times> (the ` parentId_folder ` set fs)" by simp
  qed
  then show ?thesis by (rule finite_subset) simp
qed

lemma cycleFree_acyclic: "cycleFree fs = acyclic (parentRel fs)"
proof
  assume c: "cycleFree fs"
  show "acyclic (parentRel fs)"
    unfolding acyclic_def
  proof (intro allI notI)
    fix x assume x: "(x, x) \<in> (parentRel fs)\<^sup>+"
    then obtain p where "(x, p) \<in> parentRel fs" by (meson tranclD)
    then obtain f where "f \<in> set fs" "id_folder f = x"
      using parentOf_Some by (auto simp: parentRel_def) blast
    with c x show False by (auto simp: cycleFree_def)
  qed
next
  assume "acyclic (parentRel fs)"
  then show "cycleFree fs" by (auto simp: cycleFree_def acyclic_def)
qed

lemma ancestorLoop_reaches:
  assumes "(c, x) \<in> (parentRel fs)\<^sup>*" and "c \<noteq> []"
  shows "ancestorLoop fs x (Some c) = Some True"
  using assms
proof (induction rule: converse_rtrancl_induct)
  case base
  then show ?case by (subst ancestorLoop.simps) simp
next
  case (step c p)
  then have p: "parentOf fs c = Some p" "p \<noteq> []" by (auto simp: parentRel_def)
  with step show ?case by (subst ancestorLoop.simps) simp
qed

lemma ancestorLoop_total:
  assumes "acyclic (parentRel fs)"
  shows "ancestorLoop fs x (Some c) = Some (c \<noteq> [] \<and> (c, x) \<in> (parentRel fs)\<^sup>*)"
proof -
  have wf: "wf ((parentRel fs)\<inverse>)"
    using assms parentRel_finite by (simp add: finite_acyclic_wf_converse)
  show ?thesis
  proof (induction c rule: wf_induct_rule [OF wf])
    case (1 c)
    show ?case
    proof (cases "c = [] \<or> c = x")
      case True
      then show ?thesis by (subst ancestorLoop.simps) auto
    next
      case False
      then have ne: "c \<noteq> []" "c \<noteq> x" by auto
      show ?thesis
      proof (cases "parentOf fs c")
        case None
        then have "\<And>p. (c, p) \<notin> parentRel fs" by (simp add: parentRel_def)
        then have "(c, x) \<notin> (parentRel fs)\<^sup>*" using ne by (meson converse_rtranclE)
        with None ne show ?thesis
          by (subst ancestorLoop.simps) (simp, subst ancestorLoop.simps, simp)
      next
        case (Some p)
        show ?thesis
        proof (cases "p = []")
          case True
          with Some have "\<And>q. (c, q) \<notin> parentRel fs" by (simp add: parentRel_def)
          then have "(c, x) \<notin> (parentRel fs)\<^sup>*" using ne by (meson converse_rtranclE)
          with Some True ne show ?thesis
            by (subst ancestorLoop.simps) (simp, subst ancestorLoop.simps, simp)
        next
          case False
          with Some have e: "(c, p) \<in> parentRel fs" by (simp add: parentRel_def)
          then have "(p, c) \<in> (parentRel fs)\<inverse>" by simp
          from 1 [OF this]
          have ih: "ancestorLoop fs x (Some p) = Some (p \<noteq> [] \<and> (p, x) \<in> (parentRel fs)\<^sup>*)" .
          have u: "\<And>q. (c, q) \<in> parentRel fs \<Longrightarrow> q = p"
            using Some by (simp add: parentRel_def)
          have "((c, x) \<in> (parentRel fs)\<^sup>*) = ((p, x) \<in> (parentRel fs)\<^sup>*)"
          proof
            assume "(c, x) \<in> (parentRel fs)\<^sup>*"
            then show "(p, x) \<in> (parentRel fs)\<^sup>*"
              using ne u by (metis converse_rtranclE)
          next
            assume "(p, x) \<in> (parentRel fs)\<^sup>*"
            with e show "(c, x) \<in> (parentRel fs)\<^sup>*" by (rule converse_rtrancl_into_rtrancl)
          qed
          with ih Some False ne show ?thesis
            by (subst ancestorLoop.simps) simp
        qed
      qed
    qed
  qed
qed

definition reparent :: "string \<Rightarrow> string option \<Rightarrow> Folder \<Rightarrow> Folder" where
  "reparent x t f = (if id_folder f = x then f\<lparr>parentId_folder := t\<rparr> else f)"

lemma find_map_reparent:
  "find (\<lambda>f. id_folder f = c) (map (reparent x t) fs)
     = map_option (reparent x t) (find (\<lambda>f. id_folder f = c) fs)"
  by (induction fs) (auto simp: reparent_def)

lemma parentOf_reparent:
  "parentOf (map (reparent x t) fs) c =
     (if c = x then (case find (\<lambda>f. id_folder f = c) fs of None \<Rightarrow> None | Some f \<Rightarrow> t)
      else parentOf fs c)"
  by (auto simp: parentOf_def find_map_reparent reparent_def split: option.splits
           dest: find_Some_mem)

lemma parentRel_reparent:
  "parentRel (map (reparent x t) fs)
     \<subseteq> {(c, p). (c, p) \<in> parentRel fs \<and> c \<noteq> x}
        \<union> (case t of None \<Rightarrow> {} | Some tt \<Rightarrow> if tt = [] then {} else {(x, tt)})"
  by (auto simp: parentRel_def parentOf_reparent split: option.splits if_splits)

lemma reparent_acyclic:
  assumes a: "acyclic (parentRel fs)"
    and n: "\<not> (\<exists>tt. t = Some tt \<and> tt \<noteq> [] \<and> (tt, x) \<in> (parentRel fs)\<^sup>*)"
  shows "acyclic (parentRel (map (reparent x t) fs))"
proof -
  define R0 where "R0 = {(c, p). (c, p) \<in> parentRel fs \<and> c \<noteq> x}"
  have sub: "R0 \<subseteq> parentRel fs" by (auto simp: R0_def)
  have a0: "acyclic R0" using a sub by (rule acyclic_subset)
  have r: "parentRel (map (reparent x t) fs)
             \<subseteq> R0 \<union> (case t of None \<Rightarrow> {} | Some tt \<Rightarrow> if tt = [] then {} else {(x, tt)})"
    using parentRel_reparent [of x t fs] by (simp add: R0_def)
  show ?thesis
  proof (cases "\<exists>tt. t = Some tt \<and> tt \<noteq> []")
    case False
    then have "parentRel (map (reparent x t) fs) \<subseteq> R0"
      using r by (auto split: option.splits if_splits)
    with a0 show ?thesis by (rule acyclic_subset)
  next
    case True
    then obtain tt where t: "t = Some tt" "tt \<noteq> []" by auto
    with n have "(tt, x) \<notin> (parentRel fs)\<^sup>*" by simp
    then have "(tt, x) \<notin> R0\<^sup>*" using rtrancl_mono [OF sub] by blast
    with a0 have i: "acyclic (insert (x, tt) R0)" by (simp add: acyclic_insert)
    have "parentRel (map (reparent x t) fs) \<subseteq> insert (x, tt) R0"
      using r t by auto
    with i show ?thesis by (rule acyclic_subset)
  qed
qed

lemma ancestorLoop_result:
  assumes "acyclic (parentRel fs)"
  shows "ancestorLoop fs x t = Some (\<exists>tt. t = Some tt \<and> tt \<noteq> [] \<and> (tt, x) \<in> (parentRel fs)\<^sup>*)"
proof (cases t)
  case None
  then show ?thesis by (subst ancestorLoop.simps) simp
next
  case (Some tt)
  with ancestorLoop_total [OF assms, of x tt] show ?thesis by simp
qed

lemma handleMoveFolder_result:
  assumes "acyclic (parentRel fs)"
  shows "handleMoveFolder fs x t =
           Some (if t = Some x \<or> (\<exists>tt. t = Some tt \<and> tt \<noteq> [] \<and> (tt, x) \<in> (parentRel fs)\<^sup>*)
                 then fs else map (reparent x t) fs)"
  using ancestorLoop_result [OF assms, of x t]
  by (auto simp: handleMoveFolder_def reparent_def [abs_def])

lemma handleMoveFolder_acyclic:
  assumes "acyclic (parentRel fs)"
  shows "\<exists>fs'. handleMoveFolder fs x t = Some fs' \<and> acyclic (parentRel fs')"
proof (cases "t = Some x \<or> (\<exists>tt. t = Some tt \<and> tt \<noteq> [] \<and> (tt, x) \<in> (parentRel fs)\<^sup>*)")
  case True
  with handleMoveFolder_result [OF assms, of x t] assms show ?thesis by simp
next
  case False
  then have "acyclic (parentRel (map (reparent x t) fs))"
    using reparent_acyclic [OF assms] by blast
  with handleMoveFolder_result [OF assms, of x t] False show ?thesis by simp
qed

lemma moveFolders_acyclic:
  "acyclic (parentRel fs) \<Longrightarrow> \<exists>fs'. moveFolders fs ms = Some fs' \<and> acyclic (parentRel fs')"
proof (induction ms arbitrary: fs)
  case Nil
  then show ?case by simp
next
  case (Cons m ms)
  obtain x t where m: "m = (x, t)" by (cases m)
  from handleMoveFolder_acyclic [OF Cons.prems, of x t]
  obtain fs1 where 1: "handleMoveFolder fs x t = Some fs1" "acyclic (parentRel fs1)" by blast
  from Cons.IH [OF 1(2)] 1(1) m show ?case by simp
qed

lemma handleMoveFolder_rejects:
  assumes "t = Some x \<or> (\<exists>tt. t = Some tt \<and> tt \<noteq> [] \<and> (tt, x) \<in> (parentRel fs)\<^sup>*)"
  shows "handleMoveFolder fs x t = Some fs"
proof (cases "t = Some x")
  case True
  then show ?thesis by (simp add: handleMoveFolder_def)
next
  case False
  with assms obtain tt where "t = Some tt" "tt \<noteq> []" "(tt, x) \<in> (parentRel fs)\<^sup>*" by auto
  with ancestorLoop_reaches [of tt x fs] show ?thesis by (simp add: handleMoveFolder_def)
qed

text \<open>
  C9. From a folder list in which no folder is its own ancestor, every sequence of moves
  ends and leaves a list in which no folder is its own ancestor. A move of a folder under
  itself, or under a target whose parent chain passes through the folder, returns the
  list unchanged; any other move sets the parent of the folder to the target.
\<close>

theorem handleMoveFolder_cycleFree:
  assumes "cycleFree folders"
  shows "(\<exists>folders'. moveFolders folders moves = Some folders' \<and> cycleFree folders')
       \<and> ((targetParentId = Some folderId
            \<or> (\<exists>t. targetParentId = Some t \<and> t \<noteq> [] \<and> (t, folderId) \<in> (parentRel folders)\<^sup>*))
           \<longrightarrow> handleMoveFolder folders folderId targetParentId = Some folders)
       \<and> (\<not> (targetParentId = Some folderId
            \<or> (\<exists>t. targetParentId = Some t \<and> t \<noteq> [] \<and> (t, folderId) \<in> (parentRel folders)\<^sup>*))
           \<longrightarrow> handleMoveFolder folders folderId targetParentId
                 = Some (map (\<lambda>f. if id_folder f = folderId
                                  then f\<lparr>parentId_folder := targetParentId\<rparr> else f) folders))"
proof -
  from assms have a: "acyclic (parentRel folders)" by (simp add: cycleFree_acyclic)
  from moveFolders_acyclic [OF a, of moves]
  have 1: "\<exists>folders'. moveFolders folders moves = Some folders' \<and> cycleFree folders'"
    by (simp add: cycleFree_acyclic)
  from handleMoveFolder_result [OF a, of folderId targetParentId] 1
  show ?thesis by (auto simp: reparent_def [abs_def])
qed

definition exFolders :: "Folder list" where
  "exFolders =
     [\<lparr>id_folder = ''a'', name_folder = ''A'', parentId_folder = None\<rparr>,
      \<lparr>id_folder = ''b'', name_folder = ''B'', parentId_folder = None\<rparr>,
      \<lparr>id_folder = ''c'', name_folder = ''C'', parentId_folder = None\<rparr>]"

definition exFoldersMoved :: "Folder list" where
  "exFoldersMoved =
     [\<lparr>id_folder = ''a'', name_folder = ''A'', parentId_folder = None\<rparr>,
      \<lparr>id_folder = ''b'', name_folder = ''B'', parentId_folder = Some ''a''\<rparr>,
      \<lparr>id_folder = ''c'', name_folder = ''C'', parentId_folder = Some ''b''\<rparr>]"

lemma exFolders_cycleFree: "cycleFree exFolders"
proof -
  have "parentRel exFolders = {}"
    by (auto simp: parentRel_def parentOf_def exFolders_def split: option.splits if_splits)
  then show ?thesis by (simp add: cycleFree_def)
qed

lemma exFolders_moves:
  "moveFolders exFolders [(''b'', Some ''a''), (''c'', Some ''b''), (''a'', Some ''c'')]
     = Some exFoldersMoved"
  by (simp add: handleMoveFolder_def ancestorLoop.simps parentOf_def exFolders_def
      exFoldersMoved_def)

lemma exFolders_moves2:
  "moveFolders exFolders [(''b'', Some ''a''), (''c'', Some ''b'')]
     = Some exFoldersMoved"
  by (simp add: handleMoveFolder_def ancestorLoop.simps parentOf_def exFolders_def
      exFoldersMoved_def)

lemma exFolders_reject:
  "handleMoveFolder exFoldersMoved ''a'' (Some ''c'') = Some exFoldersMoved"
  by (simp add: handleMoveFolder_def ancestorLoop.simps parentOf_def exFoldersMoved_def)

theorem handleMoveFolder_cycleFree_witness:
  "cycleFree exFolders
   \<and> moveFolders exFolders [(''b'', Some ''a''), (''c'', Some ''b''), (''a'', Some ''c'')]
       = Some exFoldersMoved
   \<and> cycleFree exFoldersMoved
   \<and> handleMoveFolder exFoldersMoved ''a'' (Some ''c'') = Some exFoldersMoved"
  using handleMoveFolder_cycleFree [OF exFolders_cycleFree,
      of "[(''b'', Some ''a''), (''c'', Some ''b''), (''a'', Some ''c'')]"]
    exFolders_cycleFree exFolders_moves exFolders_reject
  by simp

end
